theory Spec2Isabelle
  imports Complex_Main "HOL-Library.Word" "HOL-Library.AList" "HOL-Library.Sublist"
begin

section \<open>rug\_checker.py: the five-check safety screener\<close>

text \<open>
  Each check coroutine returns a dict with the keys \<open>passed\<close> and \<open>reason\<close>.
  \<open>asyncio.gather(..., return_exceptions=True)\<close> hands \<open>check_token_safety\<close> one entry
  per check: either that dict, or the exception the coroutine raised.  Reason strings keep
  their ASCII part only (the source appends a check-mark glyph to some of them).
\<close>

record check_dict =
  passed :: bool
  reason :: string

datatype check_outcome = CheckRaised string | CheckReturned check_dict

datatype detail = DetailError string | DetailResult check_dict

record RugCheckResult =
  is_safe :: bool
  risk_level :: string
  checks_passed :: int
  checks_failed :: int
  failures :: "string list"
  details :: "string \<rightharpoonup> detail"

definition check_names :: "string list" where
  "check_names =
     [''mint_authority'', ''freeze_authority'', ''holder_distribution'',
      ''liquidity'', ''creator_history'']"

text \<open>
  The body of the loop \<open>for i, (check_name, result) in enumerate(zip(check_names, results))\<close>
  on the accumulator \<open>(failures, details, checks_passed)\<close>.
\<close>

fun process_results ::
  "(string \<times> check_outcome) list \<Rightarrow> string list \<times> (string \<rightharpoonup> detail) \<times> int
     \<Rightarrow> string list \<times> (string \<rightharpoonup> detail) \<times> int" where
  "process_results [] acc = acc"
| "process_results ((check_name, CheckRaised e) # rest) (fs, ds, n) =
     process_results rest
       (fs @ [check_name @ '': '' @ take 50 e],
        ds(check_name \<mapsto> DetailError (take 100 e)), n)"
| "process_results ((check_name, CheckReturned r) # rest) (fs, ds, n) =
     (if passed r
      then process_results rest (fs, ds(check_name \<mapsto> DetailResult r), n + 1)
      else process_results rest
             (fs @ [check_name @ '': '' @ reason r],
              ds(check_name \<mapsto> DetailResult r), n))"

text \<open>The \<open>try\<close> body of \<open>check_token_safety\<close>, from the gathered results on.\<close>

definition check_token_safety :: "check_outcome list \<Rightarrow> RugCheckResult" where
  "check_token_safety results =
     (case process_results (zip check_names results) ([], Map.empty, 0) of
        (fs, ds, n) \<Rightarrow>
          (let cf = 5 - n;
               verdict =
                 (if n \<ge> 4 then (''LOW'', True)
                  else if n \<ge> 3 then (''MEDIUM'', False)
                  else (''HIGH'', False))
           in \<lparr> is_safe = snd verdict, risk_level = fst verdict, checks_passed = n,
                checks_failed = cf, failures = fs, details = ds \<rparr>))"

text \<open>The value returned by the \<open>except Exception as e\<close> handler of \<open>check_token_safety\<close>.\<close>

definition critical_error_result :: "string \<Rightarrow> RugCheckResult" where
  "critical_error_result e =
     \<lparr> is_safe = False, risk_level = ''HIGH'', checks_passed = 0, checks_failed = 5,
       failures = [''Critical error: '' @ e],
       details = [''error'' \<mapsto> DetailError e] \<rparr>"

text \<open>
  The mint account as \<open>get_account_info\<close> delivers it: \<open>value\<close> is \<open>None\<close> or an account
  whose \<open>data\<close> is a byte string.  \<open>RpcRaised\<close> stands for any exception raised inside the
  check's \<open>try\<close> block (bad address, transport error).
\<close>

record account =
  data :: "8 word list"

datatype 'a rpc_response = RpcRaised string | RpcValue 'a

definition check_mint_authority :: "account option rpc_response \<Rightarrow> check_dict" where
  "check_mint_authority resp =
     (case resp of
        RpcRaised e \<Rightarrow> \<lparr> passed = False, reason = ''Error: '' @ take 50 e \<rparr>
      | RpcValue None \<Rightarrow> \<lparr> passed = False, reason = ''Token account not found'' \<rparr>
      | RpcValue (Some acc) \<Rightarrow>
          (let has_mint_authority =
                 (if length (data acc) > 0 then data acc ! 0 = 1 else False)
           in if has_mint_authority
              then \<lparr> passed = False,
                     reason = ''Mint authority not renounced (can create infinite tokens)'' \<rparr>
              else \<lparr> passed = True, reason = ''Mint authority renounced'' \<rparr>))"

definition check_freeze_authority :: "account option rpc_response \<Rightarrow> check_dict" where
  "check_freeze_authority resp =
     (case resp of
        RpcRaised e \<Rightarrow> \<lparr> passed = False, reason = ''Error: '' @ take 50 e \<rparr>
      | RpcValue None \<Rightarrow> \<lparr> passed = False, reason = ''Token account not found'' \<rparr>
      | RpcValue (Some acc) \<Rightarrow>
          (let has_freeze_authority =
                 (if length (data acc) > 45 then data acc ! 45 = 1 else False)
           in if has_freeze_authority
              then \<lparr> passed = False,
                     reason = ''Freeze authority not renounced (can freeze tokens)'' \<rparr>
              else \<lparr> passed = True, reason = ''Freeze authority renounced'' \<rparr>))"

text \<open>The number of checks, among the ones the loop visits, whose dict says \<open>passed\<close>.\<close>

fun outcome_passed :: "check_outcome \<Rightarrow> bool" where
  "outcome_passed (CheckRaised e) = False"
| "outcome_passed (CheckReturned r) = passed r"

definition passes :: "check_outcome list \<Rightarrow> nat" where
  "passes results = length (filter outcome_passed (take 5 results))"

section \<open>price\_calculator.py: pool-state decoding and price derivation\<close>

text \<open>
  \<open>RAYDIUM_POOL_V4_LAYOUT\<close> is a \<open>construct.Struct\<close>: a sequence of fields parsed one
  after the other from the start of the buffer.  Each field reads its fixed number of
  bytes and raises \<open>StreamError\<close> when the stream holds fewer; \<open>Padding\<close> reads its bytes
  and stores nothing; bytes after the last field are ignored.
\<close>

datatype field_kind = Int64ul | Bytes nat

datatype field = Field string field_kind | Padding nat

datatype field_value = IntV "64 word" | BytesV "8 word list"

datatype construct_error = StreamError

fun sizeof :: "field \<Rightarrow> nat" where
  "sizeof (Field name Int64ul) = 8"
| "sizeof (Field name (Bytes n)) = n"
| "sizeof (Padding n) = n"

definition le_uint :: "8 word list \<Rightarrow> 64 word" where
  "le_uint bs = foldr (\<lambda>b acc. ucast b + acc * 256) bs 0"

fun build :: "field \<Rightarrow> 8 word list \<Rightarrow> (string \<times> field_value) list" where
  "build (Field name Int64ul) bs = [(name, IntV (le_uint bs))]"
| "build (Field name (Bytes n)) bs = [(name, BytesV bs)]"
| "build (Padding n) bs = []"

fun parse_struct ::
  "field list \<Rightarrow> 8 word list \<Rightarrow> construct_error + (string \<times> field_value) list" where
  "parse_struct [] s = Inr []"
| "parse_struct (f # fs) s =
     (if length s < sizeof f then Inl StreamError
      else (case parse_struct fs (drop (sizeof f) s) of
              Inl e \<Rightarrow> Inl e
            | Inr c \<Rightarrow> Inr (build f (take (sizeof f) s) @ c)))"

definition RAYDIUM_POOL_V4_LAYOUT :: "field list" where
  "RAYDIUM_POOL_V4_LAYOUT =
    [Field ''status'' Int64ul, Field ''nonce'' Int64ul, Field ''max_order'' Int64ul,
     Field ''depth'' Int64ul, Field ''base_decimal'' Int64ul,
     Field ''quote_decimal'' Int64ul, Field ''state'' Int64ul,
     Field ''reset_flag'' Int64ul, Field ''min_size'' Int64ul,
     Field ''vol_max_cut_ratio'' Int64ul, Field ''amount_wave_ratio'' Int64ul,
     Field ''base_lot_size'' Int64ul, Field ''quote_lot_size'' Int64ul,
     Field ''min_price_multiplier'' Int64ul, Field ''max_price_multiplier'' Int64ul,
     Field ''system_decimal_value'' Int64ul, Field ''min_separate_numerator'' Int64ul,
     Field ''min_separate_denominator'' Int64ul, Field ''trade_fee_numerator'' Int64ul,
     Field ''trade_fee_denominator'' Int64ul, Field ''pnl_numerator'' Int64ul,
     Field ''pnl_denominator'' Int64ul, Field ''swap_fee_numerator'' Int64ul,
     Field ''swap_fee_denominator'' Int64ul, Field ''base_need_take_pnl'' Int64ul,
     Field ''quote_need_take_pnl'' Int64ul, Field ''quote_total_pnl'' Int64ul,
     Field ''base_total_pnl'' Int64ul, Field ''pool_open_time'' Int64ul,
     Field ''punish_pc_amount'' Int64ul, Field ''punish_coin_amount'' Int64ul,
     Field ''orderbook_to_init_time'' Int64ul, Field ''swap_base_in_amount'' Int64ul,
     Field ''swap_quote_out_amount'' Int64ul, Field ''swap_base2_quote_fee'' Int64ul,
     Field ''swap_quote_in_amount'' Int64ul, Field ''swap_base_out_amount'' Int64ul,
     Field ''swap_quote2_base_fee'' Int64ul,
     Field ''base_vault'' (Bytes 32), Field ''quote_vault'' (Bytes 32),
     Field ''base_mint'' (Bytes 32), Field ''quote_mint'' (Bytes 32),
     Field ''lp_mint'' (Bytes 32), Field ''open_orders'' (Bytes 32),
     Field ''market_id'' (Bytes 32), Field ''market_program_id'' (Bytes 32),
     Field ''target_orders'' (Bytes 32), Field ''withdraw_queue'' (Bytes 32),
     Field ''lp_vault'' (Bytes 32), Field ''owner'' (Bytes 32),
     Padding 32, Padding (8 * 3)]"

text \<open>
  Attribute access on the parsed container, \<open>pool_data.base_vault\<close>.  A missing
  attribute would raise inside the caller's \<open>try\<close>, which the caller turns into \<open>None\<close>.
\<close>

definition attr_bytes :: "(string \<times> field_value) list \<Rightarrow> string \<Rightarrow> 8 word list option" where
  "attr_bytes c name = (case map_of c name of Some (BytesV b) \<Rightarrow> Some b | _ \<Rightarrow> None)"

text \<open>
  \<open>_get_token_account_balance\<close> returns \<open>None\<close> or a dict \<open>amount, decimals, ui_amount\<close>.
  Python floats are modelled as exact reals throughout.
\<close>

record token_balance =
  amount :: int
  decimals :: nat
  ui_amount :: real

text \<open>
  The source compares \<open>str(Pubkey(bytes))\<close>, the base58 text of a 32-byte key, with the
  text \<open>So11111111111111111111111111111111111111112\<close>.  Base58 is one-to-one on 32-byte
  keys, so the model compares the keys: \<open>SOL_MINT\<close> is the key with that text.
\<close>

definition SOL_MINT :: "8 word list" where
  "SOL_MINT =
     [6, 155, 136, 87, 254, 171, 129, 132, 251, 104, 127, 99, 70, 24, 192, 53,
      218, 196, 57, 220, 26, 235, 59, 85, 152, 160, 240, 0, 0, 0, 0, 1]"

text \<open>
  \<open>get_token_price_in_sol\<close>.  The first argument is the answer of \<open>get_account_info\<close> for
  the pool, the second the balance the RPC reports for a vault address.  Every exception
  inside the \<open>try\<close> is caught and becomes \<open>None\<close>.
\<close>

definition get_token_price_in_sol ::
  "account option rpc_response \<Rightarrow> (8 word list \<Rightarrow> token_balance option) \<Rightarrow> real option" where
  "get_token_price_in_sol resp balance_of =
     (case resp of
        RpcRaised e \<Rightarrow> None
      | RpcValue None \<Rightarrow> None
      | RpcValue (Some acc) \<Rightarrow>
          if data acc = [] then None
          else (case parse_struct RAYDIUM_POOL_V4_LAYOUT (data acc) of
             Inl err \<Rightarrow> None
           | Inr pool_data \<Rightarrow>
              (case (attr_bytes pool_data ''base_vault'', attr_bytes pool_data ''quote_vault'',
                     attr_bytes pool_data ''base_mint'', attr_bytes pool_data ''quote_mint'') of
                 (Some base_vault, Some quote_vault, Some base_mint, Some quote_mint) \<Rightarrow>
                   (case (balance_of base_vault, balance_of quote_vault) of
                      (Some base_info, Some quote_info) \<Rightarrow>
                        (let base_reserve_adjusted =
                               real_of_int (amount base_info) / 10 ^ decimals base_info;
                             quote_reserve_adjusted =
                               real_of_int (amount quote_info) / 10 ^ decimals quote_info
                         in if base_reserve_adjusted = 0 \<or> quote_reserve_adjusted = 0 then None
                            else if base_mint = SOL_MINT
                            then Some (base_reserve_adjusted / quote_reserve_adjusted)
                            else if quote_mint = SOL_MINT
                            then Some (quote_reserve_adjusted / base_reserve_adjusted)
                            else None)
                    | _ \<Rightarrow> None)
               | _ \<Rightarrow> None)))"

text \<open>
  \<open>get_token_price_usd\<close>, given what its two awaited calls returned: the price in SOL and
  the SOL price in USD.  \<open>not x\<close> on an optional float is true for \<open>None\<close> and for zero.
\<close>

definition get_token_price_usd :: "real option \<Rightarrow> real option \<Rightarrow> real option" where
  "get_token_price_usd price_in_sol sol_price_usd =
     (case price_in_sol of
        None \<Rightarrow> None
      | Some p \<Rightarrow>
          if p = 0 \<or> p \<le> 0 then None
          else (case sol_price_usd of
                  None \<Rightarrow> None
                | Some s \<Rightarrow> if s = 0 then None else Some (p * s)))"

text \<open>Where a named field starts in a layout, with its kind.\<close>

fun field_offset :: "field list \<Rightarrow> string \<Rightarrow> (nat \<times> field_kind) option" where
  "field_offset [] name = None"
| "field_offset (Padding n # fs) name =
     map_option (\<lambda>(off, k). (off + n, k)) (field_offset fs name)"
| "field_offset (Field m k # fs) name =
     (if m = name then Some (0, k)
      else map_option (\<lambda>(off, k'). (off + sizeof (Field m k), k')) (field_offset fs name))"

text \<open>
  A pool account for the examples: 744 bytes, base vault \<open>7...7\<close>, quote vault \<open>9...9\<close>,
  base mint the SOL mint, quote mint the all-zero key; the base vault holds
  2000000000 units at 9 decimals (2 SOL), the quote vault 4000000 units at 6 decimals
  (4 tokens).
\<close>

definition example_pool_data :: "8 word list" where
  "example_pool_data =
     replicate 304 0 @ replicate 32 7 @ replicate 32 9 @ SOL_MINT @ replicate 32 0
       @ replicate 312 0"

definition example_balance_of :: "8 word list \<Rightarrow> token_balance option" where
  "example_balance_of vault =
     (if vault = replicate 32 7
      then Some \<lparr> amount = 2000000000, decimals = 9, ui_amount = 2 \<rparr>
      else if vault = replicate 32 9
      then Some \<lparr> amount = 4000000, decimals = 6, ui_amount = 4 \<rparr>
      else None)"

section \<open>rpc\_pool.py: racing a call over every endpoint\<close>

text \<open>
  \<open>get_all_clients\<close> opens one client per configured URL.  What the method call does on
  the client with index \<open>idx\<close> is an input: it returns a value, which may be Python's
  \<open>None\<close>, or raises.  Whether \<open>client.close()\<close> raises on that client is an input too.

  \<open>call_rpc\<close> turns the call's outcome into the triple \<open>(idx, result, error)\<close> and then
  runs \<open>await client.close()\<close> in its \<open>finally\<close> block.  When \<open>close\<close> raises, that
  exception replaces the triple and leaves the coroutine, and
  \<open>gather(..., return_exceptions=True)\<close> puts the exception object into the result list
  in the triple's place; the client is then not known to be closed.
\<close>

record client =
  url :: string
  closed :: bool

datatype 'r call_outcome = Returned "'r option" | Raised string

datatype 'r gathered = Triple nat "'r option" "string option" | GatherException string

text \<open>
  The two ways \<open>parallel_call\<close> raises: its own \<open>Exception\<close> after the loop, and the
  \<open>TypeError\<close> of unpacking an exception object in \<open>for idx, result, error in results\<close>.
\<close>

datatype rpc_error = AllCallsFailed string | UnpackTypeError

definition get_all_clients :: "string list \<Rightarrow> client list" where
  "get_all_clients rpc_urls = map (\<lambda>u. \<lparr> url = u, closed = False \<rparr>) rpc_urls"

definition call_rpc ::
  "(nat \<Rightarrow> string \<Rightarrow> 'r call_outcome) \<Rightarrow> (nat \<Rightarrow> string \<Rightarrow> string option)
     \<Rightarrow> nat \<times> client \<Rightarrow> 'r gathered \<times> client" where
  "call_rpc call close_raises ic =
     (case ic of (idx, c) \<Rightarrow>
        (let returned =
               (case call idx (url c) of
                  Returned result \<Rightarrow> Triple idx result None
                | Raised e \<Rightarrow> Triple idx None (Some e))
         in case close_raises idx (url c) of
              None \<Rightarrow> (returned, c\<lparr> closed := True \<rparr>)
            | Some e \<Rightarrow> (GatherException e, c)))"

text \<open>
  The loop \<open>for idx, result, error in results\<close> with its early \<open>return result\<close>, and the
  \<open>raise\<close> that follows the loop.
\<close>

fun first_success :: "string \<Rightarrow> 'r gathered list \<Rightarrow> rpc_error + 'r" where
  "first_success method_name [] = Inl (AllCallsFailed method_name)"
| "first_success method_name (GatherException e # rest) = Inl UnpackTypeError"
| "first_success method_name (Triple idx result error # rest) =
     (case (result, error) of
        (Some r, None) \<Rightarrow> Inr r
      | _ \<Rightarrow> first_success method_name rest)"

definition parallel_call ::
  "string list \<Rightarrow> string \<Rightarrow> (nat \<Rightarrow> string \<Rightarrow> 'r call_outcome)
     \<Rightarrow> (nat \<Rightarrow> string \<Rightarrow> string option) \<Rightarrow> (rpc_error + 'r) \<times> client list" where
  "parallel_call rpc_urls method_name call close_raises =
     (let clients = get_all_clients rpc_urls;
          done = map (call_rpc call close_raises) (enumerate 0 clients);
          results = map fst done
      in (first_success method_name results, map snd done))"

text \<open>An endpoint whose method returns \<open>None\<close> without raising, as \<open>close\<close> does.\<close>

definition returns_none :: "nat \<Rightarrow> string \<Rightarrow> unit call_outcome" where
  "returns_none idx u = Returned None"

text \<open>
  Three endpoints: the first raises, the second answers 1, the third answers 2.
\<close>

definition two_healthy :: "nat \<Rightarrow> string \<Rightarrow> nat call_outcome" where
  "two_healthy idx u =
     (if idx = 0 then Raised ''timeout''
      else if idx = 1 then Returned (Some 1) else Returned (Some 2))"

text \<open>No \<open>close\<close> raises; and only the \<open>close\<close> of the first client raises.\<close>

definition close_ok :: "nat \<Rightarrow> string \<Rightarrow> string option" where
  "close_ok idx u = None"

definition first_close_raises :: "nat \<Rightarrow> string \<Rightarrow> string option" where
  "first_close_raises idx u = (if idx = 0 then Some ''session is closed'' else None)"

text \<open>The triple \<open>call_rpc\<close> produces for the endpoint with index \<open>i\<close> and URL \<open>u\<close>.\<close>

definition triple ::
  "(nat \<Rightarrow> string \<Rightarrow> 'r call_outcome) \<Rightarrow> nat \<times> string \<Rightarrow> 'r gathered" where
  "triple call iu =
     (case iu of (i, u) \<Rightarrow>
        (case call i u of Returned x \<Rightarrow> Triple i x None | Raised e \<Rightarrow> Triple i None (Some e)))"

text \<open>An outcome that the selection loop accepts: returned, and not \<open>None\<close>.\<close>

fun is_success :: "'r call_outcome \<Rightarrow> bool" where
  "is_success (Returned (Some r)) = True"
| "is_success (Returned None) = False"
| "is_success (Raised e) = False"

section \<open>raydium\_sniper\_bot.py: listener, admission, positions and exits\<close>

record Config =
  DRY_RUN :: bool
  TRADE_AMOUNT_SOL :: real
  STOP_LOSS_PERCENT :: real
  TAKE_PROFIT_1 :: real
  TAKE_PROFIT_2 :: real
  MAX_POSITIONS :: int
  MAX_DAILY_TRADES :: int

record NewPoolEvent =
  ev_pool_address :: string
  ev_token_mint :: string
  ev_sol_mint :: string
  ev_liquidity_sol :: real
  ev_creator :: string
  ev_timestamp :: real

record Position =
  token_mint :: string
  pool_address :: string
  entry_price_usd :: real
  entry_time :: real
  amount_sol :: real
  highest_price :: real
  lowest_price :: real
  entry_tx :: string
  rug_check_passed :: int

definition current_pnl :: "Position \<Rightarrow> real \<Rightarrow> real" where
  "current_pnl p current_price =
     (if entry_price_usd p \<le> 0 then 0
      else ((current_price - entry_price_usd p) / entry_price_usd p) * 100)"

text \<open>\<open>hold_time_minutes\<close> reads the clock; the reading is the argument \<open>now\<close>.\<close>

definition hold_time_minutes :: "Position \<Rightarrow> real \<Rightarrow> real" where
  "hold_time_minutes p now = (now - entry_time p) / 60"

text \<open>
  \<open>BotState\<close>: the open positions are a dict in insertion order, the statistics are
  the entries of \<open>stats\<close>.  \<open>pending_tasks\<close> are the \<open>analyze_new_pool\<close> coroutines
  handed to the event loop by \<open>asyncio.create_task\<close> and not yet run, each with its
  signature argument.
\<close>

record BotState =
  positions :: "(string \<times> Position) list"
  processed_pools :: "string set"
  pools_detected :: int
  pools_analyzed :: int
  rug_checks_passed :: int
  rug_checks_failed :: int
  trades_executed :: int
  trades_simulated :: int
  wins :: int
  losses :: int
  total_pnl :: real
  today_trades :: int
  pending_tasks :: "string list"

subsection \<open>Reconnection loop of \<open>listen_new_pools\<close>\<close>

text \<open>
  One pass of the \<open>while state.running\<close> loop is one connection attempt.  It either
  reaches the line after \<open>websocket.send\<close> (subscribed) or not, and it ends with a
  \<open>WebSocketException\<close>, with another exception, or with the message stream ending
  normally.  The pass returns the new \<open>reconnect_delay\<close> and the time slept, if any.
\<close>

datatype ending = WebSocketException | OtherException | StreamEnded

definition max_reconnect_delay :: int where
  "max_reconnect_delay = 300"

definition listen_pass :: "int \<Rightarrow> bool \<times> ending \<Rightarrow> int \<times> int option" where
  "listen_pass reconnect_delay attempt =
     (case attempt of (subscribed, e) \<Rightarrow>
        (let d = (if subscribed then 5 else reconnect_delay)
         in case e of
              WebSocketException \<Rightarrow> (min (d * 2) max_reconnect_delay, Some d)
            | OtherException \<Rightarrow> (d, Some d)
            | StreamEnded \<Rightarrow> (d, None)))"

fun listen_loop :: "int \<Rightarrow> (bool \<times> ending) list \<Rightarrow> int option list" where
  "listen_loop reconnect_delay [] = []"
| "listen_loop reconnect_delay (a # rest) =
     (case listen_pass reconnect_delay a of
        (d', slept) \<Rightarrow> slept # listen_loop d' rest)"

text \<open>
  \<open>listen_new_pools\<close> on a run whose connection attempts are the given list: the
  delays it sleeps, in order (\<open>None\<close> where a pass reconnects without sleeping).
\<close>

definition listen_new_pools :: "string \<Rightarrow> (bool \<times> ending) list \<Rightarrow> int option list" where
  "listen_new_pools HELIUS_WSS_URL attempts =
     (if HELIUS_WSS_URL = [] then [] else listen_loop 5 attempts)"

subsection \<open>Detection and deduplication\<close>

definition lower_char :: "char \<Rightarrow> char" where
  "lower_char c =
     (if 65 \<le> (of_char c :: nat) \<and> (of_char c :: nat) \<le> 90
      then char_of ((of_char c :: nat) + 32) else c)"

fun contains :: "string \<Rightarrow> string \<Rightarrow> bool" where
  "contains sub [] = (sub = [])"
| "contains sub (c # cs) = (prefix sub (c # cs) \<or> contains sub cs)"

record log_event =
  logs :: "string list"
  signature :: "string option"

definition is_new_pool :: "log_event \<Rightarrow> bool" where
  "is_new_pool event =
     list_ex (\<lambda>log. contains ''initialize2'' (map lower_char log)
                  \<or> contains ''InitializeInstruction2'' log) (logs event)"

definition process_log_event :: "BotState \<Rightarrow> log_event \<Rightarrow> BotState" where
  "process_log_event st event =
     (let sig = (case signature event of None \<Rightarrow> ''unknown'' | Some s \<Rightarrow> s)
      in if \<not> is_new_pool event then st
         else st\<lparr> pools_detected := pools_detected st + 1,
                  pending_tasks := pending_tasks st @ [sig] \<rparr>)"

definition analyze_new_pool :: "BotState \<Rightarrow> string \<Rightarrow> BotState" where
  "analyze_new_pool st tx_signature =
     (if tx_signature \<in> processed_pools st then st
      else st\<lparr> processed_pools := insert tx_signature (processed_pools st),
               pools_analyzed := pools_analyzed st + 1 \<rparr>)"

text \<open>
  The event loop runs the queued coroutines in the order they were created;
  \<open>analyze_new_pool\<close> has no \<open>await\<close>, so each one runs to its end undisturbed.
\<close>

definition run_pending :: "BotState \<Rightarrow> BotState" where
  "run_pending st = foldl analyze_new_pool (st\<lparr> pending_tasks := [] \<rparr>) (pending_tasks st)"

subsection \<open>Valuation and exit rules of \<open>monitor_positions\<close>\<close>

text \<open>
  The body of the loop over the open positions, for one position: \<open>current_price\<close> is
  what \<open>get_token_price_usd\<close> returned, \<open>now\<close> the clock.  The result is the position as
  mutated and the exit reason chosen, if any.
\<close>

definition monitor_position ::
  "Config \<Rightarrow> real \<Rightarrow> real option \<Rightarrow> Position \<Rightarrow> Position \<times> string option" where
  "monitor_position cfg now current_price position =
     (case current_price of
        None \<Rightarrow> (position, None)
      | Some cp \<Rightarrow>
          if cp = 0 then (position, None)
          else
            (let p1 = (if cp > highest_price position
                       then position\<lparr> highest_price := cp \<rparr> else position);
                 p2 = (if cp < lowest_price p1 then p1\<lparr> lowest_price := cp \<rparr> else p1);
                 pnl = current_pnl p2 cp;
                 hold_time = hold_time_minutes p2 now;
                 exit_reason =
                   (if pnl \<le> STOP_LOSS_PERCENT cfg then Some ''STOP_LOSS''
                    else if pnl \<ge> TAKE_PROFIT_2 cfg then Some ''TAKE_PROFIT_2''
                    else if pnl \<ge> TAKE_PROFIT_1 cfg then Some ''TAKE_PROFIT_1''
                    else if hold_time > 60 \<and> pnl < - 5 then Some ''TIMEOUT_LOSS''
                    else None)
             in (p2, exit_reason)))"

text \<open>
  \<open>exit_position\<close>: statistics, then \<open>del state.positions[token_mint]\<close>.  The sale
  itself is simulated or a placeholder in the source.
\<close>

definition exit_position :: "BotState \<Rightarrow> string \<Rightarrow> Position \<Rightarrow> real \<Rightarrow> BotState" where
  "exit_position st mint position current_price =
     (let pnl = current_pnl position current_price;
          is_win = (pnl > 0);
          st1 = (if is_win then st\<lparr> wins := wins st + 1 \<rparr>
                 else st\<lparr> losses := losses st + 1 \<rparr>);
          st2 = st1\<lparr> total_pnl := total_pnl st1 + pnl \<rparr>
      in st2\<lparr> positions := AList.delete mint (positions st2) \<rparr>)"

text \<open>
  The life of one position under the monitor: open, or removed at an exit with the
  snapshot and reason of that exit.  A tick carries the clock and the two values
  \<open>get_token_price_usd\<close> works from.  A removed position is no longer visited.
\<close>

datatype pos_state = Open Position | Closed Position string

fun tick :: "Config \<Rightarrow> pos_state \<Rightarrow> real \<times> real option \<times> real option \<Rightarrow> pos_state" where
  "tick cfg (Closed p r) t = Closed p r"
| "tick cfg (Open p) (now, price_in_sol, sol_price_usd) =
     (case monitor_position cfg now (get_token_price_usd price_in_sol sol_price_usd) p of
        (p', None) \<Rightarrow> Open p'
      | (p', Some r) \<Rightarrow> Closed p' r)"

definition monitor_run ::
  "Config \<Rightarrow> Position \<Rightarrow> (real \<times> real option \<times> real option) list \<Rightarrow> pos_state" where
  "monitor_run cfg p ticks = foldl (tick cfg) (Open p) ticks"

text \<open>The prices the ticks delivered, in order.\<close>

definition observed :: "(real \<times> real option \<times> real option) list \<Rightarrow> real list" where
  "observed ticks =
     concat (map (\<lambda>(now, price_in_sol, sol_price_usd).
        case get_token_price_usd price_in_sol sol_price_usd of
          None \<Rightarrow> [] | Some cp \<Rightarrow> [cp]) ticks)"

text \<open>
  The exit rules in the words of the specification: an ordered table of reason and
  condition, of which the first that holds wins.
\<close>

definition spec_exit_rules ::
  "real \<Rightarrow> real \<Rightarrow> real \<Rightarrow> real \<Rightarrow> real \<Rightarrow> real \<Rightarrow> real \<Rightarrow> (string \<times> bool) list" where
  "spec_exit_rules stopLoss tp2 tp1 timeoutMinutes smallLoss pnl holdMinutes =
     [(''STOP_LOSS'', pnl \<le> stopLoss),
      (''TAKE_PROFIT_2'', pnl \<ge> tp2),
      (''TAKE_PROFIT_1'', pnl \<ge> tp1),
      (''TIMEOUT_LOSS'', holdMinutes > timeoutMinutes \<and> pnl < smallLoss)]"

fun first_match :: "(string \<times> bool) list \<Rightarrow> string option" where
  "first_match [] = None"
| "first_match ((name, holds) # rest) = (if holds then Some name else first_match rest)"

subsection \<open>Admission and entry in \<open>analyze_and_trade_pool\<close>\<close>

text \<open>
  The coroutine suspends at its \<open>await\<close>s: the rug check, the price, the buy.  Between
  two of them it runs undisturbed; at each of them other coroutines may run.  A task
  carries the event, what the three awaited calls will return, the clock at entry, and
  the point it has reached.  \<open>analyze_step\<close> runs the task from that point to its next
  suspension.
\<close>

datatype task_pc = AtAdmission | AfterRugCheck | AfterPrice | AfterBuy | TaskDone

record analysis_task =
  pool_event :: NewPoolEvent
  rug_result :: RugCheckResult
  price_usd :: "real option"
  tx_sig :: "string option"
  clock :: real
  pc :: task_pc

definition analyze_step ::
  "Config \<Rightarrow> BotState \<times> analysis_task \<Rightarrow> BotState \<times> analysis_task" where
  "analyze_step cfg sa =
     (case sa of (st, t) \<Rightarrow>
       (case pc t of
          AtAdmission \<Rightarrow>
            if int (length (positions st)) \<ge> MAX_POSITIONS cfg then (st, t\<lparr> pc := TaskDone \<rparr>)
            else if today_trades st \<ge> MAX_DAILY_TRADES cfg then (st, t\<lparr> pc := TaskDone \<rparr>)
            else (st, t\<lparr> pc := AfterRugCheck \<rparr>)
        | AfterRugCheck \<Rightarrow>
            if \<not> is_safe (rug_result t)
            then (st\<lparr> rug_checks_failed := rug_checks_failed st + 1 \<rparr>, t\<lparr> pc := TaskDone \<rparr>)
            else (st\<lparr> rug_checks_passed := rug_checks_passed st + 1 \<rparr>,
                  t\<lparr> pc := AfterPrice \<rparr>)
        | AfterPrice \<Rightarrow>
            (case price_usd t of
               None \<Rightarrow> (st, t\<lparr> pc := TaskDone \<rparr>)
             | Some p \<Rightarrow>
                 if p = 0 \<or> p \<le> 0 then (st, t\<lparr> pc := TaskDone \<rparr>)
                 else (st, t\<lparr> pc := AfterBuy \<rparr>))
        | AfterBuy \<Rightarrow>
            (case (tx_sig t, price_usd t) of
               (Some sig, Some p) \<Rightarrow>
                 if sig = [] then (st, t\<lparr> pc := TaskDone \<rparr>)
                 else
                   (let st1 = (if DRY_RUN cfg
                               then st\<lparr> trades_simulated := trades_simulated st + 1 \<rparr>
                               else st\<lparr> trades_executed := trades_executed st + 1 \<rparr>);
                        st2 = st1\<lparr> today_trades := today_trades st1 + 1 \<rparr>;
                        position =
                          \<lparr> token_mint = ev_token_mint (pool_event t),
                            pool_address = ev_pool_address (pool_event t),
                            entry_price_usd = p,
                            entry_time = clock t,
                            amount_sol = TRADE_AMOUNT_SOL cfg,
                            highest_price = p,
                            lowest_price = p,
                            entry_tx = sig,
                            rug_check_passed = checks_passed (rug_result t) \<rparr>
                    in (st2\<lparr> positions :=
                              AList.update (ev_token_mint (pool_event t)) position
                                (positions st2) \<rparr>,
                        t\<lparr> pc := TaskDone \<rparr>))
             | _ \<Rightarrow> (st, t\<lparr> pc := TaskDone \<rparr>))
        | TaskDone \<Rightarrow> (st, t)))"

text \<open>\<open>analyze_and_trade_pool\<close> run from start to end with nothing in between.\<close>

definition analyze_and_trade_pool :: "Config \<Rightarrow> BotState \<Rightarrow> analysis_task \<Rightarrow> BotState" where
  "analyze_and_trade_pool cfg st t =
     fst (analyze_step cfg (analyze_step cfg (analyze_step cfg (analyze_step cfg
            (st, t\<lparr> pc := AtAdmission \<rparr>)))))"

text \<open>
  Several analysis tasks on one event loop: the schedule names, step by step, the task
  that is resumed next.
\<close>

fun run_schedule ::
  "Config \<Rightarrow> BotState \<times> analysis_task list \<Rightarrow> nat list \<Rightarrow> BotState \<times> analysis_task list" where
  "run_schedule cfg (st, ts) [] = (st, ts)"
| "run_schedule cfg (st, ts) (i # rest) =
     (if i < length ts
      then (case analyze_step cfg (st, ts ! i) of
              (st', t') \<Rightarrow> run_schedule cfg (st', ts[i := t']) rest)
      else run_schedule cfg (st, ts) rest)"

text \<open>Inputs for the examples.\<close>

definition example_config :: Config where
  "example_config =
     \<lparr> DRY_RUN = True, TRADE_AMOUNT_SOL = 1 / 100, STOP_LOSS_PERCENT = - 20,
       TAKE_PROFIT_1 = 50, TAKE_PROFIT_2 = 100, MAX_POSITIONS = 1, MAX_DAILY_TRADES = 20 \<rparr>"

definition initial_state :: BotState where
  "initial_state =
     \<lparr> positions = [], processed_pools = {}, pools_detected = 0, pools_analyzed = 0,
       rug_checks_passed = 0, rug_checks_failed = 0, trades_executed = 0,
       trades_simulated = 0, wins = 0, losses = 0, total_pnl = 0, today_trades = 0,
       pending_tasks = [] \<rparr>"

definition safe_verdict :: RugCheckResult where
  "safe_verdict =
     \<lparr> is_safe = True, risk_level = ''LOW'', checks_passed = 5, checks_failed = 0,
       failures = [], details = Map.empty \<rparr>"

definition example_task :: "string \<Rightarrow> string \<Rightarrow> analysis_task" where
  "example_task pool mint =
     \<lparr> pool_event =
         \<lparr> ev_pool_address = pool, ev_token_mint = mint, ev_sol_mint = ''So1'',
           ev_liquidity_sol = 10, ev_creator = ''creator'', ev_timestamp = 0 \<rparr>,
       rug_result = safe_verdict, price_usd = Some 2, tx_sig = Some ''sig'',
       clock = 0, pc = AtAdmission \<rparr>"

definition example_position :: Position where
  "example_position =
     \<lparr> token_mint = ''mintA'', pool_address = ''poolA'', entry_price_usd = 100,
       entry_time = 0, amount_sol = 1 / 100, highest_price = 100, lowest_price = 100,
       entry_tx = ''sig'', rug_check_passed = 5 \<rparr>"

text \<open>A task about to run the code after the awaited buy, at price 100.\<close>

definition entry_task :: analysis_task where
  "entry_task = (example_task ''poolA'' ''mintA'')\<lparr> price_usd := Some 100, pc := AfterBuy \<rparr>"

definition example_event :: log_event where
  "example_event =
     \<lparr> logs = [''Program log: initialize2: InitializeInstruction2''],
       signature = Some ''5abc'' \<rparr>"

section \<open>Properties of the screener\<close>

lemma process_results_count:
  "process_results nrs (fs, ds, n) = (fs', ds', n') \<Longrightarrow>
     n' = n + int (length (filter outcome_passed (map snd nrs)))"
proof (induction nrs "(fs, ds, n)" arbitrary: fs ds n rule: process_results.induct)
  case 1
  then show ?case by simp
next
  case (2 check_name e rest fs ds n)
  then show ?case by simp
next
  case (3 check_name r rest fs ds n)
  then show ?case by (cases "passed r") simp_all
qed

lemma map_snd_zip_check_names:
  "map snd (zip check_names results) = take 5 results"
proof -
  have "length check_names = 5" by (simp add: check_names_def)
  then have "map snd (zip check_names results) = take (min 5 (length results)) results"
    by (simp add: map_snd_zip_take)
  also have "\<dots> = take 5 results"
    by (cases "5 \<le> length results") (simp_all add: min_def)
  finally show ?thesis .
qed

lemma checks_passed_eq_passes:
  "checks_passed (check_token_safety results) = int (passes results)"
proof -
  obtain fs ds n where
    run: "process_results (zip check_names results) ([], Map.empty, 0) = (fs, ds, n)"
    by (metis prod_cases3)
  from process_results_count [OF run] have "n = int (passes results)"
    by (simp add: passes_def map_snd_zip_check_names)
  with run show ?thesis
    by (simp add: check_token_safety_def Let_def)
qed

lemma passes_le_5: "passes results \<le> 5"
proof -
  have "passes results \<le> length (take 5 results)"
    unfolding passes_def by (rule length_filter_le)
  then show ?thesis by simp
qed

lemma verdict_by_count:
  "is_safe (check_token_safety results) = (checks_passed (check_token_safety results) \<ge> 4)
   \<and> risk_level (check_token_safety results) =
       (if checks_passed (check_token_safety results) \<ge> 4 then ''LOW''
        else if checks_passed (check_token_safety results) = 3 then ''MEDIUM''
        else ''HIGH'')"
  by (cases "process_results (zip check_names results) ([], Map.empty, 0)")
     (auto simp: check_token_safety_def Let_def)

text \<open>
  C1. In every screening run the verdict is a function of the number of passed checks
  alone, and that number is the count of passing entries among the five gathered results:
  four or five passes give risk LOW and safe, exactly three give MEDIUM and unsafe, fewer
  than three give HIGH and unsafe.  The handler for an exception escaping the run reports
  zero passes with HIGH and unsafe, which is the same table.
\<close>

theorem C1_verdict_from_checks_passed:
  fixes results :: "check_outcome list" and e :: string
  defines "r \<equiv> check_token_safety results"
  shows "checks_passed r = int (passes results)
       \<and> 0 \<le> checks_passed r \<and> checks_passed r \<le> 5
       \<and> checks_failed r = 5 - checks_passed r
       \<and> (checks_passed r \<ge> 4 \<longrightarrow> risk_level r = ''LOW'' \<and> is_safe r)
       \<and> (checks_passed r = 3 \<longrightarrow> risk_level r = ''MEDIUM'' \<and> \<not> is_safe r)
       \<and> (checks_passed r < 3 \<longrightarrow> risk_level r = ''HIGH'' \<and> \<not> is_safe r)
       \<and> checks_passed (critical_error_result e) = 0
       \<and> risk_level (critical_error_result e) = ''HIGH''
       \<and> \<not> is_safe (critical_error_result e)"
proof -
  have cnt: "checks_passed r = int (passes results)"
    unfolding r_def by (rule checks_passed_eq_passes)
  have rng: "0 \<le> checks_passed r" "checks_passed r \<le> 5"
    using cnt passes_le_5 [of results] by simp_all
  have cf: "checks_failed r = 5 - checks_passed r"
    unfolding r_def
    by (cases "process_results (zip check_names results) ([], Map.empty, 0)")
       (simp add: check_token_safety_def Let_def)
  have v: "is_safe r = (checks_passed r \<ge> 4)"
    "risk_level r = (if checks_passed r \<ge> 4 then ''LOW''
                     else if checks_passed r = 3 then ''MEDIUM'' else ''HIGH'')"
    unfolding r_def using verdict_by_count [of results] by simp_all
  have crit: "checks_passed (critical_error_result e) = 0"
    "risk_level (critical_error_result e) = ''HIGH''"
    "\<not> is_safe (critical_error_result e)"
    by (simp_all add: critical_error_result_def)
  from cnt rng cf v crit show ?thesis by simp
qed

theorem C1_verdict_from_checks_passed_witness:
  "checks_passed (check_token_safety
      [CheckReturned \<lparr> passed = True, reason = ''a'' \<rparr>,
       CheckReturned \<lparr> passed = True, reason = ''b'' \<rparr>,
       CheckReturned \<lparr> passed = True, reason = ''c'' \<rparr>,
       CheckReturned \<lparr> passed = False, reason = ''d'' \<rparr>,
       CheckRaised ''boom'']) = 3
   \<and> risk_level (check_token_safety
      [CheckReturned \<lparr> passed = True, reason = ''a'' \<rparr>,
       CheckReturned \<lparr> passed = True, reason = ''b'' \<rparr>,
       CheckReturned \<lparr> passed = True, reason = ''c'' \<rparr>,
       CheckReturned \<lparr> passed = False, reason = ''d'' \<rparr>,
       CheckRaised ''boom'']) = ''MEDIUM''
   \<and> \<not> is_safe (check_token_safety
      [CheckReturned \<lparr> passed = True, reason = ''a'' \<rparr>,
       CheckReturned \<lparr> passed = True, reason = ''b'' \<rparr>,
       CheckReturned \<lparr> passed = True, reason = ''c'' \<rparr>,
       CheckReturned \<lparr> passed = False, reason = ''d'' \<rparr>,
       CheckRaised ''boom''])"
  using C1_verdict_from_checks_passed
    [of "[CheckReturned \<lparr> passed = True, reason = ''a'' \<rparr>,
          CheckReturned \<lparr> passed = True, reason = ''b'' \<rparr>,
          CheckReturned \<lparr> passed = True, reason = ''c'' \<rparr>,
          CheckReturned \<lparr> passed = False, reason = ''d'' \<rparr>,
          CheckRaised ''boom'']" "''boom''"]
  by (simp add: passes_def)

text \<open>
  C10. When the mint account exists but its data is too short to hold the flag byte a
  check tests, the check passes without reading any byte: an empty buffer passes the
  mint-authority check (flag at offset 0), and a buffer of at most 45 bytes passes the
  freeze-authority check (flag at offset 45).
\<close>

theorem C10_short_buffer_passes:
  "(length (data acc) = 0 \<longrightarrow> passed (check_mint_authority (RpcValue (Some acc))))
   \<and> (length (data acc) \<le> 45 \<longrightarrow> passed (check_freeze_authority (RpcValue (Some acc))))"
  by (simp add: check_mint_authority_def check_freeze_authority_def)

theorem C10_short_buffer_passes_witness:
  "passed (check_mint_authority (RpcValue (Some \<lparr> data = [] \<rparr>)))
   \<and> passed (check_freeze_authority (RpcValue (Some \<lparr> data = replicate 45 1 \<rparr>)))"
  using C10_short_buffer_passes [of "\<lparr> data = [] \<rparr>"]
        C10_short_buffer_passes [of "\<lparr> data = replicate 45 1 \<rparr>"]
  by simp

section \<open>Properties of decoding and price derivation\<close>

lemma parse_struct_short:
  "length s < sum_list (map sizeof fs) \<Longrightarrow> parse_struct fs s = Inl StreamError"
proof (induction fs arbitrary: s)
  case Nil
  then show ?case by simp
next
  case (Cons f fs)
  show ?case
  proof (cases "length s < sizeof f")
    case True
    then show ?thesis by simp
  next
    case False
    with Cons.prems have "length (drop (sizeof f) s) < sum_list (map sizeof fs)" by simp
    from Cons.IH [OF this] False show ?thesis by simp
  qed
qed

lemma parse_struct_long:
  "sum_list (map sizeof fs) \<le> length s \<Longrightarrow> \<exists>c. parse_struct fs s = Inr c"
proof (induction fs arbitrary: s)
  case Nil
  then show ?case by simp
next
  case (Cons f fs)
  then have a: "\<not> length s < sizeof f" by simp
  from Cons.prems have "sum_list (map sizeof fs) \<le> length (drop (sizeof f) s)" by simp
  from Cons.IH [OF this] obtain c where "parse_struct fs (drop (sizeof f) s) = Inr c" ..
  with a show ?case by simp
qed

lemma layout_size: "sum_list (map sizeof RAYDIUM_POOL_V4_LAYOUT) = 744"
  by (simp add: RAYDIUM_POOL_V4_LAYOUT_def)

lemma map_of_build_other:
  "(\<And>k. f \<noteq> Field name k) \<Longrightarrow> map_of (build f bs @ c) name = map_of c name"
proof (cases f)
  case (Field m k)
  moreover assume "\<And>k. f \<noteq> Field name k"
  ultimately show ?thesis by (cases k) auto
next
  case (Padding n)
  then show ?thesis by simp
qed

lemma parse_struct_field:
  "parse_struct fs s = Inr c \<Longrightarrow> field_offset fs name = Some (off, Bytes n) \<Longrightarrow>
     attr_bytes c name = Some (take n (drop off s))"
proof (induction fs arbitrary: s c off)
  case Nil
  then show ?case by simp
next
  case (Cons f fs)
  from Cons.prems(1) obtain c' where
    rest: "parse_struct fs (drop (sizeof f) s) = Inr c'"
    and c: "c = build f (take (sizeof f) s) @ c'"
    by (auto split: if_splits sum.splits)
  show ?case
  proof (cases "\<exists>k. f = Field name k")
    case True
    with Cons.prems(2) have "f = Field name (Bytes n)" "off = 0" by auto
    with c show ?thesis by (simp add: attr_bytes_def)
  next
    case False
    then obtain off' where
      o: "field_offset fs name = Some (off', Bytes n)" and off: "off = off' + sizeof f"
      using Cons.prems(2) by (cases f) (auto split: if_splits)
    from Cons.IH [OF rest o] have "attr_bytes c' name = Some (take n (drop off' (drop (sizeof f) s)))" .
    moreover have "map_of c name = map_of c' name"
      unfolding c using False by (intro map_of_build_other) auto
    ultimately show ?thesis by (simp add: attr_bytes_def off add.commute)
  qed
qed

lemma layout_offsets:
  "field_offset RAYDIUM_POOL_V4_LAYOUT ''base_vault'' = Some (304, Bytes 32)"
  "field_offset RAYDIUM_POOL_V4_LAYOUT ''quote_vault'' = Some (336, Bytes 32)"
  "field_offset RAYDIUM_POOL_V4_LAYOUT ''base_mint'' = Some (368, Bytes 32)"
  "field_offset RAYDIUM_POOL_V4_LAYOUT ''quote_mint'' = Some (400, Bytes 32)"
  by (simp_all add: RAYDIUM_POOL_V4_LAYOUT_def)


lemma price_formula:
  assumes len: "744 \<le> length (data acc)"
  shows "get_token_price_in_sol (RpcValue (Some acc)) balance_of =
     (case (balance_of (take 32 (drop 304 (data acc))),
            balance_of (take 32 (drop 336 (data acc)))) of
        (Some bi, Some qi) \<Rightarrow>
          (let b = real_of_int (amount bi) / 10 ^ decimals bi;
               q = real_of_int (amount qi) / 10 ^ decimals qi
           in if b = 0 \<or> q = 0 then None
              else if take 32 (drop 368 (data acc)) = SOL_MINT then Some (b / q)
              else if take 32 (drop 400 (data acc)) = SOL_MINT then Some (q / b)
              else None)
      | _ \<Rightarrow> None)"
proof -
  from len obtain c where p: "parse_struct RAYDIUM_POOL_V4_LAYOUT (data acc) = Inr c"
    using parse_struct_long [of RAYDIUM_POOL_V4_LAYOUT "data acc"] layout_size by auto
  note f = layout_offsets [THEN parse_struct_field [OF p]]
  from len have ne: "data acc \<noteq> []" by auto
  show ?thesis
    unfolding get_token_price_in_sol_def
    by (simp add: p f ne split: option.splits)
qed

lemma example_pool_fields:
  "length example_pool_data = 744"
  "take 32 (drop 304 example_pool_data) = replicate 32 7"
  "take 32 (drop 336 example_pool_data) = replicate 32 9"
  "take 32 (drop 368 example_pool_data) = SOL_MINT"
  by (simp_all add: example_pool_data_def SOL_MINT_def)

lemma example_price:
  "get_token_price_in_sol (RpcValue (Some \<lparr> data = example_pool_data \<rparr>)) example_balance_of
     = Some (1 / 2)"
  by (simp add: price_formula example_pool_fields example_balance_of_def)

text \<open>
  C3 (amended). For a pool account of at least the layout size whose two vaults report
  positive balances, each reserve is \<open>balance / 10^decimals\<close> and the price is the
  reserve on the SOL side divided by the reserve on the other side: base over quote when
  the base mint is SOL, quote over base when only the quote mint is SOL.  When neither
  mint is SOL no price is returned.
\<close>

theorem C3_price_is_reference_over_other:
  assumes "744 \<le> length (data acc)"
    and "balance_of (take 32 (drop 304 (data acc))) = Some base_info"
    and "balance_of (take 32 (drop 336 (data acc))) = Some quote_info"
    and "amount base_info > 0" and "amount quote_info > 0"
  shows "get_token_price_in_sol (RpcValue (Some acc)) balance_of =
     (if take 32 (drop 368 (data acc)) = SOL_MINT
      then Some ((real_of_int (amount base_info) / 10 ^ decimals base_info)
                 / (real_of_int (amount quote_info) / 10 ^ decimals quote_info))
      else if take 32 (drop 400 (data acc)) = SOL_MINT
      then Some ((real_of_int (amount quote_info) / 10 ^ decimals quote_info)
                 / (real_of_int (amount base_info) / 10 ^ decimals base_info))
      else None)"
  using assms by (simp add: price_formula)

theorem C3_price_is_reference_over_other_witness:
  "get_token_price_in_sol (RpcValue (Some \<lparr> data = example_pool_data \<rparr>)) example_balance_of
     = Some ((2000000000 / 10 ^ 9) / (4000000 / 10 ^ 6))"
  using C3_price_is_reference_over_other
    [of "\<lparr> data = example_pool_data \<rparr>" example_balance_of
        "\<lparr> amount = 2000000000, decimals = 9, ui_amount = 2 \<rparr>"
        "\<lparr> amount = 4000000, decimals = 6, ui_amount = 4 \<rparr>"]
  by (simp add: example_pool_fields example_balance_of_def)

text \<open>
  The claim as written puts the other side's reserve over the SOL side's.  On the example
  pool (SOL is the base with reserve 2, the token reserve is 4) the code returns 2/4, not
  4/2.
\<close>

theorem C3_price_counterexample:
  "get_token_price_in_sol (RpcValue (Some \<lparr> data = example_pool_data \<rparr>)) example_balance_of
     = Some (1 / 2)
   \<and> get_token_price_in_sol (RpcValue (Some \<lparr> data = example_pool_data \<rparr>)) example_balance_of
     \<noteq> Some ((4000000 / 10 ^ 6) / (2000000000 / 10 ^ 9))"
  by (simp add: example_price)

text \<open>
  C8. The layout's fixed size is 744 bytes.  For every account buffer shorter than that,
  decoding fails (the parser raises \<open>StreamError\<close>), and \<open>get_token_price_in_sol\<close>
  reports failure by returning no price, whatever the vault balances are.
\<close>

theorem C8_short_buffer_fails:
  assumes "length (data acc) < sum_list (map sizeof RAYDIUM_POOL_V4_LAYOUT)"
  shows "sum_list (map sizeof RAYDIUM_POOL_V4_LAYOUT) = 744
       \<and> parse_struct RAYDIUM_POOL_V4_LAYOUT (data acc) = Inl StreamError
       \<and> get_token_price_in_sol (RpcValue (Some acc)) balance_of = None"
  using parse_struct_short [OF assms]
  by (simp add: layout_size get_token_price_in_sol_def)

theorem C8_short_buffer_fails_witness:
  "parse_struct RAYDIUM_POOL_V4_LAYOUT (replicate 743 0) = Inl StreamError
   \<and> get_token_price_in_sol (RpcValue (Some \<lparr> data = replicate 743 0 \<rparr>)) example_balance_of
       = None"
  using C8_short_buffer_fails [of "\<lparr> data = replicate 743 0 \<rparr>" example_balance_of]
  by (simp add: layout_size)

section \<open>Properties of the position monitor and the listener\<close>

lemma monitor_position_exit:
  assumes "cp \<noteq> 0"
  shows "snd (monitor_position cfg now (Some cp) position) =
     (if current_pnl position cp \<le> STOP_LOSS_PERCENT cfg then Some ''STOP_LOSS''
      else if current_pnl position cp \<ge> TAKE_PROFIT_2 cfg then Some ''TAKE_PROFIT_2''
      else if current_pnl position cp \<ge> TAKE_PROFIT_1 cfg then Some ''TAKE_PROFIT_1''
      else if hold_time_minutes position now > 60 \<and> current_pnl position cp < - 5
      then Some ''TIMEOUT_LOSS''
      else None)"
  using assms
  by (simp add: monitor_position_def Let_def current_pnl_def hold_time_minutes_def)

text \<open>
  C2. For every monitored position and every price obtained for it, the exit reason the
  loop chooses is the first matching rule of the specification's ordered table
  STOP\_LOSS, TAKE\_PROFIT\_2, TAKE\_PROFIT\_1, TIMEOUT\_LOSS, with the code's timeout of
  60 minutes and small-loss threshold of -5 percent; whenever the stop-loss condition
  holds the reason is STOP\_LOSS, whatever the other rules say.  The instance below has
  pnl -25, stop loss -20 and a hold time of 90 minutes.
\<close>

theorem C2_exit_rule_order:
  assumes "current_price = Some cp" and "cp \<noteq> 0"
  shows "snd (monitor_position cfg now current_price position) =
           first_match (spec_exit_rules (STOP_LOSS_PERCENT cfg) (TAKE_PROFIT_2 cfg)
             (TAKE_PROFIT_1 cfg) 60 (- 5)
             (current_pnl position cp) (hold_time_minutes position now))
       \<and> (current_pnl position cp \<le> STOP_LOSS_PERCENT cfg \<longrightarrow>
            snd (monitor_position cfg now current_price position) = Some ''STOP_LOSS'')"
  using assms by (simp add: monitor_position_exit spec_exit_rules_def)

theorem C2_exit_rule_order_witness:
  "current_pnl example_position 75 = - 25
   \<and> hold_time_minutes example_position 5400 = 90
   \<and> STOP_LOSS_PERCENT example_config = - 20
   \<and> snd (monitor_position example_config 5400 (Some 75) example_position) = Some ''STOP_LOSS''"
  using C2_exit_rule_order [where current_price = "Some 75" and cp = 75
      and position = example_position and cfg = example_config and now = 5400]
  by (simp add: current_pnl_def hold_time_minutes_def example_position_def example_config_def
        spec_exit_rules_def)

subsection \<open>Extremes of a position\<close>

lemma monitor_position_widens:
  assumes "monitor_position cfg now current_price p = (p', r)"
  shows "lowest_price p' \<le> lowest_price p \<and> highest_price p \<le> highest_price p'
       \<and> entry_price_usd p' = entry_price_usd p
       \<and> (\<forall>cp. current_price = Some cp \<and> cp \<noteq> 0 \<longrightarrow>
             lowest_price p' \<le> cp \<and> cp \<le> highest_price p')"
  using assms
  by (auto simp: monitor_position_def Let_def split: option.splits if_splits)

lemma get_token_price_usd_nonzero:
  "get_token_price_usd a b = Some cp \<Longrightarrow> cp \<noteq> 0"
  by (auto simp: get_token_price_usd_def split: option.splits if_splits)

lemma observed_snoc:
  "observed (ticks @ [(now, a, b)]) =
     observed ticks @ (case get_token_price_usd a b of None \<Rightarrow> [] | Some cp \<Rightarrow> [cp])"
  by (simp add: observed_def)

lemma monitor_run_snoc:
  "monitor_run cfg p0 (ticks @ [t]) = tick cfg (monitor_run cfg p0 ticks) t"
  by (simp add: monitor_run_def)

lemma tick_Open_D:
  "tick cfg s t = Open p \<Longrightarrow>
     \<exists>q now a b. s = Open q \<and> t = (now, a, b)
        \<and> monitor_position cfg now (get_token_price_usd a b) q = (p, None)"
  by (cases s; cases t) (auto split: prod.splits option.splits)

lemma monitor_position_step:
  assumes "monitor_position cfg now (get_token_price_usd a b) p = (p', r)"
  shows "entry_price_usd p' = entry_price_usd p
       \<and> highest_price p' =
           (case get_token_price_usd a b of None \<Rightarrow> highest_price p
            | Some cp \<Rightarrow> max (highest_price p) cp)
       \<and> lowest_price p' =
           (case get_token_price_usd a b of None \<Rightarrow> lowest_price p
            | Some cp \<Rightarrow> min (lowest_price p) cp)"
proof (cases "get_token_price_usd a b")
  case None
  with assms show ?thesis by (simp add: monitor_position_def)
next
  case (Some cp)
  then have "cp \<noteq> 0" by (rule get_token_price_usd_nonzero)
  with assms Some show ?thesis
    by (auto simp: monitor_position_def Let_def split: if_splits)
qed

lemma Max_snoc:
  fixes h :: real
  shows "Max (set (h # xs @ [c])) = max (Max (set (h # xs))) c"
proof -
  have "set (h # xs @ [c]) = insert c (set (h # xs))" by auto
  moreover have "Max (insert c (set (h # xs))) = max c (Max (set (h # xs)))"
    by (rule Max_insert) simp_all
  ultimately show ?thesis by (simp add: max.commute)
qed

lemma Min_snoc:
  fixes h :: real
  shows "Min (set (h # xs @ [c])) = min (Min (set (h # xs))) c"
proof -
  have "set (h # xs @ [c]) = insert c (set (h # xs))" by auto
  moreover have "Min (insert c (set (h # xs))) = min c (Min (set (h # xs)))"
    by (rule Min_insert) simp_all
  ultimately show ?thesis by (simp add: min.commute)
qed

lemma step_Max_Min:
  assumes step: "monitor_position cfg now (get_token_price_usd a b) p = (p', r)"
    and hi: "highest_price p = Max (set (h # observed ticks))"
    and lo: "lowest_price p = Min (set (l # observed ticks))"
  shows "highest_price p' = Max (set (h # observed (ticks @ [(now, a, b)])))
       \<and> lowest_price p' = Min (set (l # observed (ticks @ [(now, a, b)])))
       \<and> entry_price_usd p' = entry_price_usd p"
proof (cases "get_token_price_usd a b")
  case None
  with monitor_position_step [OF step] hi lo show ?thesis
    by (simp add: observed_snoc)
next
  case (Some cp)
  with monitor_position_step [OF step] hi lo show ?thesis
    by (simp only: observed_snoc option.case Max_snoc Min_snoc)
qed

lemma monitor_run_extremes:
  "monitor_run cfg p0 ticks = Open p \<Longrightarrow>
     highest_price p = Max (set (highest_price p0 # observed ticks))
     \<and> lowest_price p = Min (set (lowest_price p0 # observed ticks))
     \<and> entry_price_usd p = entry_price_usd p0"
proof (induction ticks arbitrary: p rule: rev_induct)
  case Nil
  then show ?case by (simp add: monitor_run_def observed_def)
next
  case (snoc t ticks)
  from snoc.prems have "tick cfg (monitor_run cfg p0 ticks) t = Open p"
    by (simp add: monitor_run_snoc)
  from tick_Open_D [OF this] obtain q now a b where
    q: "monitor_run cfg p0 ticks = Open q" and t: "t = (now, a, b)"
    and m: "monitor_position cfg now (get_token_price_usd a b) q = (p, None)"
    by blast
  from snoc.IH [OF q] have hi: "highest_price q = Max (set (highest_price p0 # observed ticks))"
    and lo: "lowest_price q = Min (set (lowest_price p0 # observed ticks))"
    and en: "entry_price_usd q = entry_price_usd p0"
    by simp_all
  from step_Max_Min [OF m hi lo] en show ?case unfolding t by simp
qed

lemma analyze_step_entry:
  assumes "pc t = AfterBuy" and "tx_sig t = Some sig" and "sig \<noteq> []"
    and "price_usd t = Some price"
  shows "map_of (positions (fst (analyze_step cfg (st, t)))) (ev_token_mint (pool_event t))
     = Some \<lparr> token_mint = ev_token_mint (pool_event t),
              pool_address = ev_pool_address (pool_event t),
              entry_price_usd = price, entry_time = clock t,
              amount_sol = TRADE_AMOUNT_SOL cfg,
              highest_price = price, lowest_price = price,
              entry_tx = sig, rug_check_passed = checks_passed (rug_result t) \<rparr>"
  using assms by (simp add: analyze_step_def Let_def AList.update_conv')

lemma analyze_step_other_mint:
  "m \<noteq> ev_token_mint (pool_event t) \<Longrightarrow>
     map_of (positions (fst (analyze_step cfg (st, t)))) m = map_of (positions st) m"
  by (auto simp: analyze_step_def Let_def AList.update_conv'
        split: task_pc.splits option.splits)

lemma exit_position_removes:
  "map_of (positions (exit_position st mint p cp)) mint = None"
  by (simp add: exit_position_def Let_def AList.delete_conv')

text \<open>
  C4. The position that \<open>analyze_and_trade_pool\<close> stores after a successful buy has its
  entry price and both extremes equal to the price just computed; this holds whether the
  mint is new or already had an open position, which the new one then replaces.  If the
  stored position is still open after any sequence of valuation ticks, then after the
  next tick, whether that tick exits or not, \<open>highest_price\<close> is the maximum and
  \<open>lowest_price\<close> the minimum of the entry price and every price observed since entry.
  So every such price lies between the two, and the interval did not narrow on this tick.
  An exit removes the position from the open set.
\<close>

theorem C4_extremes_are_max_min_of_observed:
  assumes buy: "pc t = AfterBuy" "tx_sig t = Some sig" "sig \<noteq> []" "price_usd t = Some price"
    and stored: "map_of (positions (fst (analyze_step cfg (st, t))))
                   (ev_token_mint (pool_event t)) = Some p0"
    and run: "monitor_run cfg p0 ticks = Open p"
    and step: "monitor_position cfg now (get_token_price_usd a b) p = (p', r)"
  shows "entry_price_usd p0 = price \<and> highest_price p0 = price \<and> lowest_price p0 = price
       \<and> highest_price p' = Max (set (price # observed (ticks @ [(now, a, b)])))
       \<and> lowest_price p' = Min (set (price # observed (ticks @ [(now, a, b)])))
       \<and> (\<forall>x \<in> set (price # observed (ticks @ [(now, a, b)])).
             lowest_price p' \<le> x \<and> x \<le> highest_price p')
       \<and> lowest_price p' \<le> lowest_price p \<and> highest_price p \<le> highest_price p'
       \<and> map_of (positions (exit_position st' (ev_token_mint (pool_event t)) p' cp))
             (ev_token_mint (pool_event t)) = None"
proof -
  from analyze_step_entry [OF buy, of cfg st] stored
  have p0: "entry_price_usd p0 = price" "highest_price p0 = price" "lowest_price p0 = price"
    by auto
  from monitor_run_extremes [OF run] p0
  have hi: "highest_price p = Max (set (price # observed ticks))"
    and lo: "lowest_price p = Min (set (price # observed ticks))"
    by simp_all
  from step_Max_Min [OF step hi lo]
  have hi': "highest_price p' = Max (set (price # observed (ticks @ [(now, a, b)])))"
    and lo': "lowest_price p' = Min (set (price # observed (ticks @ [(now, a, b)])))"
    by simp_all
  have bounds: "\<forall>x \<in> set (price # observed (ticks @ [(now, a, b)])).
      lowest_price p' \<le> x \<and> x \<le> highest_price p'"
    unfolding hi' lo' by (auto intro: Max_ge Min_le)
  note w = monitor_position_widens [OF step]
  from p0 hi' lo' bounds w exit_position_removes show ?thesis by simp
qed

lemma example_entry:
  "map_of (positions (fst (analyze_step example_config (initial_state, entry_task))))
      (ev_token_mint (pool_event entry_task)) = Some example_position"
  by (simp add: analyze_step_def Let_def entry_task_def example_task_def example_config_def
        initial_state_def example_position_def safe_verdict_def)

lemma example_run:
  "monitor_run example_config example_position [(60, Some 1, Some 120), (120, Some 1, Some 90)]
     = Open (example_position\<lparr> highest_price := 120, lowest_price := 90 \<rparr>)"
  by (simp add: monitor_run_def monitor_position_def get_token_price_usd_def Let_def
        current_pnl_def hold_time_minutes_def example_position_def example_config_def)

lemma example_step:
  "monitor_position example_config 180 (get_token_price_usd (Some 1) (Some 95))
      (example_position\<lparr> highest_price := 120, lowest_price := 90 \<rparr>)
     = (example_position\<lparr> highest_price := 120, lowest_price := 90 \<rparr>, None)"
  by (simp add: monitor_position_def get_token_price_usd_def Let_def
        current_pnl_def hold_time_minutes_def example_position_def example_config_def)

theorem C4_extremes_are_max_min_of_observed_witness:
  "Max (set (100 # observed [(60, Some 1, Some 120), (120, Some 1, Some 90),
                             (180, Some 1, Some 95)])) = 120
   \<and> Min (set (100 # observed [(60, Some 1, Some 120), (120, Some 1, Some 90),
                               (180, Some 1, Some 95)])) = 90"
proof -
  have buy: "pc entry_task = AfterBuy" "tx_sig entry_task = Some ''sig''" "''sig'' \<noteq> []"
    "price_usd entry_task = Some 100"
    by (simp_all add: entry_task_def example_task_def)
  from C4_extremes_are_max_min_of_observed [OF buy example_entry example_run example_step]
  show ?thesis by simp
qed

subsection \<open>Reconnection delays\<close>

lemma websocket_failures_double:
  "listen_new_pools ''wss://rpc'' [(False, WebSocketException), (False, WebSocketException),
      (False, WebSocketException)] = [Some 5, Some 10, Some 20]"
  by (simp add: listen_new_pools_def listen_pass_def max_reconnect_delay_def)

lemma listen_pass_bounds:
  "5 \<le> d \<Longrightarrow> d \<le> 300 \<Longrightarrow> listen_pass d a = (d', slept) \<Longrightarrow>
     5 \<le> d' \<and> d' \<le> 300 \<and> (\<forall>x. slept = Some x \<longrightarrow> 5 \<le> x \<and> x \<le> 300)"
  by (cases a)
     (auto simp: listen_pass_def max_reconnect_delay_def Let_def split: ending.splits if_splits)

lemma listen_pass_reset:
  "listen_pass d (True, e) = listen_pass 5 (True, e)"
  by (cases e) (simp_all add: listen_pass_def)

text \<open>
  C9. The delay starts at 5, is doubled up to 300 by the handler for
  \<open>WebSocketException\<close> and is reset to 5 after a subscription.  The handler for any
  other exception sleeps the current delay and leaves it as it is: three consecutive
  connection failures of that kind (a refused or timed-out connection is an \<open>OSError\<close>)
  give the delays 5, 5, 5 where the claim says 5, 10, 20.
\<close>

theorem C9_other_exceptions_do_not_double:
  "listen_new_pools ''wss://rpc'' [(False, OtherException), (False, OtherException),
      (False, OtherException)] = [Some 5, Some 5, Some 5]"
  by (simp add: listen_new_pools_def listen_pass_def max_reconnect_delay_def)

subsection \<open>Deduplication of detections\<close>

lemma analyze_new_pool_seen:
  "tx_signature \<in> processed_pools st \<Longrightarrow> analyze_new_pool st tx_signature = st"
  by (simp add: analyze_new_pool_def)

lemma analyze_new_pool_marks:
  "tx_signature \<in> processed_pools (analyze_new_pool st tx_signature)"
  by (simp add: analyze_new_pool_def)

lemma analyze_new_pool_idem:
  "analyze_new_pool (analyze_new_pool st sig) sig = analyze_new_pool st sig"
  by (rule analyze_new_pool_seen) (rule analyze_new_pool_marks)

lemma analyze_new_pool_detected:
  "analyze_new_pool (st\<lparr> pools_detected := d \<rparr>) sig
     = (analyze_new_pool st sig)\<lparr> pools_detected := d \<rparr>"
  by (simp add: analyze_new_pool_def)

lemma foldl_analyze_detected:
  "foldl analyze_new_pool (st\<lparr> pools_detected := d \<rparr>) sigs
     = (foldl analyze_new_pool st sigs)\<lparr> pools_detected := d \<rparr>"
  by (induction sigs arbitrary: st) (simp_all add: analyze_new_pool_detected)

lemma foldl_analyze_pending:
  "pending_tasks (foldl analyze_new_pool st sigs) = pending_tasks st"
  by (induction sigs arbitrary: st) (simp_all add: analyze_new_pool_def)

lemma foldl_analyze_detected_same:
  "pools_detected (foldl analyze_new_pool st sigs) = pools_detected st"
  by (induction sigs arbitrary: st) (simp_all add: analyze_new_pool_def)

lemma run_pending_once:
  assumes "is_new_pool event"
  shows "run_pending (process_log_event st event) =
     analyze_new_pool
       (foldl analyze_new_pool (st\<lparr> pending_tasks := [] \<rparr>) (pending_tasks st)
          \<lparr> pools_detected := pools_detected st + 1 \<rparr>)
       (case signature event of None \<Rightarrow> ''unknown'' | Some s \<Rightarrow> s)"
proof -
  have sw: "st\<lparr> pools_detected := d, pending_tasks := [] \<rparr>
      = st\<lparr> pending_tasks := [], pools_detected := d \<rparr>" for d
    by simp
  show ?thesis
    using assms
    by (simp add: run_pending_def process_log_event_def Let_def sw
          foldl_analyze_detected analyze_new_pool_detected)
qed

lemma run_pending_clears: "pending_tasks (run_pending st) = []"
  by (simp add: run_pending_def foldl_analyze_pending)

lemma run_pending_single:
  "run_pending (s\<lparr> pools_detected := d, pending_tasks := [sig] \<rparr>)
     = analyze_new_pool (s\<lparr> pools_detected := d, pending_tasks := [] \<rparr>) sig"
  by (simp add: run_pending_def)

lemma drop_empty_pending:
  "pending_tasks s = [] \<Longrightarrow>
     s\<lparr> pools_detected := d, pending_tasks := [] \<rparr> = s\<lparr> pools_detected := d \<rparr>"
  by (cases s) simp

lemma run_pending_twice_queued:
  assumes "is_new_pool event"
  shows "run_pending (process_log_event (process_log_event st event) event)
       = (run_pending (process_log_event st event))
           \<lparr> pools_detected := pools_detected st + 2 \<rparr>"
proof -
  have sw: "s\<lparr> pools_detected := d, pending_tasks := [] \<rparr>
      = s\<lparr> pending_tasks := [], pools_detected := d \<rparr>" for d and s :: BotState
    by simp
  show ?thesis
    using assms
    by (simp add: run_pending_def process_log_event_def Let_def sw
          foldl_analyze_detected analyze_new_pool_detected analyze_new_pool_idem)
qed

lemma run_pending_twice_separate:
  assumes "is_new_pool event"
  shows "run_pending (process_log_event (run_pending (process_log_event st event)) event)
       = (run_pending (process_log_event st event))
           \<lparr> pools_detected := pools_detected st + 2 \<rparr>"
proof -
  let ?sig = "case signature event of None \<Rightarrow> ''unknown'' | Some s \<Rightarrow> s"
  let ?once = "run_pending (process_log_event st event)"
  have seen: "?sig \<in> processed_pools ?once"
    unfolding run_pending_once [OF assms] by (rule analyze_new_pool_marks)
  have det: "pools_detected ?once = pools_detected st + 1"
    unfolding run_pending_once [OF assms] by (simp add: analyze_new_pool_def)
  have step: "process_log_event ?once event
      = ?once\<lparr> pools_detected := pools_detected ?once + 1, pending_tasks := [?sig] \<rparr>"
    using assms by (simp add: process_log_event_def Let_def run_pending_clears)
  have "run_pending (process_log_event ?once event)
      = analyze_new_pool
          (?once\<lparr> pools_detected := pools_detected ?once + 1, pending_tasks := [] \<rparr>) ?sig"
    unfolding step by (rule run_pending_single)
  also have "?once\<lparr> pools_detected := pools_detected ?once + 1, pending_tasks := [] \<rparr>
      = ?once\<lparr> pools_detected := pools_detected ?once + 1 \<rparr>"
    by (rule drop_empty_pending) (rule run_pending_clears)
  also have "analyze_new_pool (?once\<lparr> pools_detected := pools_detected ?once + 1 \<rparr>) ?sig
      = ?once\<lparr> pools_detected := pools_detected ?once + 1 \<rparr>"
    using seen by (simp add: analyze_new_pool_def)
  finally show ?thesis by (simp add: det)
qed

text \<open>
  C5. Delivering the same pool-creation detection twice leads to one analysis.  Each
  delivery counts a detection and hands a task to the event loop, and the task's first
  action is the duplicate check; so whether the second delivery arrives before or after
  the first task has run, the final state is that of a single delivery except for the
  detection counter: the signature is in the processed set, a further
  \<open>analyze_new_pool\<close> on it changes nothing, and a signature not seen before is
  analysed exactly once.
\<close>

theorem C5_duplicate_signature_analyzed_once:
  fixes st :: BotState and event :: log_event
  defines "sig \<equiv> (case signature event of None \<Rightarrow> ''unknown'' | Some s \<Rightarrow> s)"
  defines "once \<equiv> run_pending (process_log_event st event)"
  assumes new_pool: "is_new_pool event"
  shows "run_pending (process_log_event (process_log_event st event) event)
           = once\<lparr> pools_detected := pools_detected st + 2 \<rparr>
       \<and> run_pending (process_log_event (run_pending (process_log_event st event)) event)
           = once\<lparr> pools_detected := pools_detected st + 2 \<rparr>
       \<and> sig \<in> processed_pools once
       \<and> analyze_new_pool once sig = once
       \<and> analyze_new_pool (analyze_new_pool st sig) sig = analyze_new_pool st sig
       \<and> (pending_tasks st = [] \<and> sig \<notin> processed_pools st \<longrightarrow>
            pools_analyzed once = pools_analyzed st + 1
            \<and> processed_pools once = insert sig (processed_pools st))"
proof -
  have seen: "sig \<in> processed_pools once"
    unfolding once_def sig_def run_pending_once [OF new_pool] by (rule analyze_new_pool_marks)
  have fresh: "pools_analyzed once = pools_analyzed st + 1
      \<and> processed_pools once = insert sig (processed_pools st)"
    if "pending_tasks st = []" "sig \<notin> processed_pools st"
    using that unfolding once_def sig_def run_pending_once [OF new_pool]
    by (simp add: analyze_new_pool_def)
  show ?thesis
    using run_pending_twice_queued [OF new_pool, of st]
      run_pending_twice_separate [OF new_pool, of st]
      seen analyze_new_pool_seen [OF seen] analyze_new_pool_idem [of st sig] fresh
    unfolding once_def by blast
qed

lemma example_event_is_new_pool: "is_new_pool example_event"
  by (simp add: is_new_pool_def example_event_def lower_char_def)

theorem C5_duplicate_signature_analyzed_once_witness:
  "is_new_pool example_event
   \<and> pools_analyzed (run_pending (process_log_event (process_log_event initial_state
        example_event) example_event)) = 1
   \<and> processed_pools (run_pending (process_log_event (process_log_event initial_state
        example_event) example_event)) = {''5abc''}
   \<and> pools_detected (run_pending (process_log_event (process_log_event initial_state
        example_event) example_event)) = 2"
  using C5_duplicate_signature_analyzed_once [OF example_event_is_new_pool, of initial_state]
    example_event_is_new_pool
  by (simp add: initial_state_def example_event_def)

section \<open>Properties of the endpoint race\<close>

lemma enumerate_map:
  "enumerate n (map f xs) = map (\<lambda>(i, x). (i, f x)) (enumerate n xs)"
  by (induction xs arbitrary: n) simp_all

lemma call_rpc_closing:
  "close_raises i u = None \<Longrightarrow>
     call_rpc call close_raises (i, \<lparr> url = u, closed = False \<rparr>)
       = (triple call (i, u), \<lparr> url = u, closed = True \<rparr>)"
  by (simp add: call_rpc_def triple_def Let_def split: call_outcome.splits)

lemma done_when_closing:
  assumes "\<forall>i < length rpc_urls. close_raises i (rpc_urls ! i) = None"
  shows "map (call_rpc call close_raises) (enumerate 0 (get_all_clients rpc_urls))
       = map (\<lambda>(i, u). (triple call (i, u), \<lparr> url = u, closed = True \<rparr>)) (enumerate 0 rpc_urls)"
proof -
  have "map (call_rpc call close_raises) (enumerate 0 (get_all_clients rpc_urls))
      = map (\<lambda>(i, u). call_rpc call close_raises (i, \<lparr> url = u, closed = False \<rparr>))
          (enumerate 0 rpc_urls)"
    by (simp add: get_all_clients_def enumerate_map comp_def split_def)
  also have "\<dots> = map (\<lambda>(i, u). (triple call (i, u), \<lparr> url = u, closed = True \<rparr>))
                     (enumerate 0 rpc_urls)"
    using assms by (intro map_cong refl) (auto simp: in_set_enumerate_eq call_rpc_closing)
  finally show ?thesis .
qed

lemma first_success_triples:
  "first_success m (map (triple call) (enumerate n us)) = Inr r \<longleftrightarrow>
     (\<exists>j < length us. call (n + j) (us ! j) = Returned (Some r)
        \<and> (\<forall>k < j. \<not> is_success (call (n + k) (us ! k))))"
proof (induction us arbitrary: n)
  case Nil
  then show ?case by simp
next
  case (Cons u us)
  show ?case
  proof (cases "is_success (call n u)")
    case True
    then obtain r0 where r0: "call n u = Returned (Some r0)"
      by (cases "call n u" rule: is_success.cases) auto
    have "(\<exists>j < length (u # us). call (n + j) ((u # us) ! j) = Returned (Some r)
        \<and> (\<forall>k < j. \<not> is_success (call (n + k) ((u # us) ! k)))) \<longleftrightarrow> r = r0"
    proof
      assume "\<exists>j < length (u # us). call (n + j) ((u # us) ! j) = Returned (Some r)
        \<and> (\<forall>k < j. \<not> is_success (call (n + k) ((u # us) ! k)))"
      then obtain j where j: "call (n + j) ((u # us) ! j) = Returned (Some r)"
        and min: "\<forall>k < j. \<not> is_success (call (n + k) ((u # us) ! k))" by blast
      have "j = 0"
      proof (rule ccontr)
        assume "j \<noteq> 0"
        then have "0 < j" by simp
        with min have "\<not> is_success (call (n + 0) ((u # us) ! 0))" by blast
        with True show False by simp
      qed
      with j r0 show "r = r0" by simp
    next
      assume "r = r0"
      with r0 show "\<exists>j < length (u # us). call (n + j) ((u # us) ! j) = Returned (Some r)
        \<and> (\<forall>k < j. \<not> is_success (call (n + k) ((u # us) ! k)))"
        by (intro exI [of _ 0]) simp
    qed
    moreover have "first_success m (map (triple call) (enumerate n (u # us))) = Inr r0"
      using r0 by (simp add: triple_def)
    ultimately show ?thesis by auto
  next
    case False
    then have skip: "first_success m (map (triple call) (enumerate n (u # us)))
        = first_success m (map (triple call) (enumerate (Suc n) us))"
      by (cases "call n u" rule: is_success.cases) (simp_all add: triple_def)
    have "(\<exists>j < length (u # us). call (n + j) ((u # us) ! j) = Returned (Some r)
        \<and> (\<forall>k < j. \<not> is_success (call (n + k) ((u # us) ! k))))
      \<longleftrightarrow> (\<exists>j < length us. call (Suc n + j) (us ! j) = Returned (Some r)
        \<and> (\<forall>k < j. \<not> is_success (call (Suc n + k) (us ! k))))"
      using False by (auto simp add: Ex_less_Suc2 All_less_Suc2)
    with skip Cons.IH [of "Suc n"] show ?thesis by simp
  qed
qed

lemma first_success_triples_error:
  "(\<exists>err. first_success m (map (triple call) (enumerate n us)) = Inl err) \<longleftrightarrow>
     (\<forall>j < length us. \<not> is_success (call (n + j) (us ! j)))"
  "first_success m (map (triple call) (enumerate n us)) = Inl err \<Longrightarrow> err = AllCallsFailed m"
proof (induction us arbitrary: n)
  case Nil
  { case 1 show ?case by simp }
  { case 2 then show ?case by simp }
next
  case (Cons u us)
  { case 1
    show ?case
      using Cons.IH(1) [of "Suc n"]
      by (cases "call n u" rule: is_success.cases) (simp_all add: triple_def All_less_Suc2) }
  { case 2
    then show ?case
      using Cons.IH(2) [of "Suc n"]
      by (cases "call n u" rule: is_success.cases) (simp_all add: triple_def) }
qed

lemma not_success_iff:
  "\<not> is_success c \<longleftrightarrow> c = Returned None \<or> (\<exists>e. c = Raised e)"
  by (cases c rule: is_success.cases) simp_all

lemma success_iff: "is_success c \<longleftrightarrow> (\<exists>r. c = Returned (Some r))"
  by (cases c rule: is_success.cases) simp_all


lemma fst_parallel_call:
  assumes "\<forall>i < length rpc_urls. close_raises i (rpc_urls ! i) = None"
  shows "fst (parallel_call rpc_urls method_name call close_raises)
       = first_success method_name (map (triple call) (enumerate 0 rpc_urls))"
proof -
  from assms have d: "map (call_rpc call close_raises) (enumerate 0 (get_all_clients rpc_urls))
       = map (\<lambda>(i, u). (triple call (i, u), \<lparr> url = u, closed = True \<rparr>)) (enumerate 0 rpc_urls)"
    by (rule done_when_closing)
  have "fst (parallel_call rpc_urls method_name call close_raises)
      = first_success method_name
          (map fst (map (call_rpc call close_raises) (enumerate 0 (get_all_clients rpc_urls))))"
    by (simp add: parallel_call_def Let_def del: map_map)
  also have "\<dots> = first_success method_name
      (map fst (map (\<lambda>(i, u). (triple call (i, u), \<lparr> url = u, closed = True \<rparr>))
         (enumerate 0 rpc_urls)))"
    by (simp only: d)
  also have "\<dots> = first_success method_name (map (triple call) (enumerate 0 rpc_urls))"
    by (simp add: comp_def split_def)
  finally show ?thesis .
qed

lemma snd_parallel_call:
  assumes "\<forall>i < length rpc_urls. close_raises i (rpc_urls ! i) = None"
  shows "snd (parallel_call rpc_urls method_name call close_raises)
       = map (\<lambda>u. \<lparr> url = u, closed = True \<rparr>) rpc_urls"
proof -
  from assms have d: "map (call_rpc call close_raises) (enumerate 0 (get_all_clients rpc_urls))
       = map (\<lambda>(i, u). (triple call (i, u), \<lparr> url = u, closed = True \<rparr>)) (enumerate 0 rpc_urls)"
    by (rule done_when_closing)
  have "snd (parallel_call rpc_urls method_name call close_raises)
      = map snd (map (call_rpc call close_raises) (enumerate 0 (get_all_clients rpc_urls)))"
    by (simp add: parallel_call_def Let_def del: map_map)
  also have "\<dots> = map snd (map (\<lambda>(i, u). (triple call (i, u), \<lparr> url = u, closed = True \<rparr>))
         (enumerate 0 rpc_urls))"
    by (simp only: d)
  also have "\<dots> = map ((\<lambda>u. \<lparr> url = u, closed = True \<rparr>) \<circ> snd) (enumerate 0 rpc_urls)"
    by (simp add: comp_def split_def)
  also have "\<dots> = map (\<lambda>u. \<lparr> url = u, closed = True \<rparr>) (map snd (enumerate 0 rpc_urls))"
    by (simp only: map_map)
  also have "\<dots> = map (\<lambda>u. \<lparr> url = u, closed = True \<rparr>) rpc_urls"
    by (simp only: map_snd_enumerate)
  finally show ?thesis .
qed

text \<open>
  C6 (amended). A call counts as a success when it returned without raising and the
  value is not \<open>None\<close>.  On a run in which no client's \<open>close\<close> raises: if some
  endpoint's call is a success, \<open>parallel_call\<close> returns the result of the first
  successful endpoint in endpoint order, whatever the other endpoints do; it raises
  exactly when every endpoint's call raised or returned \<open>None\<close>, and then with its
  all-calls-failed error; and one client per URL was opened and every one of them is
  closed at the end.
\<close>

theorem C6_race_first_non_none_result:
  fixes call :: "nat \<Rightarrow> string \<Rightarrow> 'r call_outcome"
  assumes closes: "\<forall>i < length rpc_urls. close_raises i (rpc_urls ! i) = None"
  shows "((\<exists>i r. i < length rpc_urls \<and> call i (rpc_urls ! i) = Returned (Some r)) \<longrightarrow>
            (\<exists>j r'. j < length rpc_urls \<and> call j (rpc_urls ! j) = Returned (Some r')
               \<and> (\<forall>k < j. \<forall>r. call k (rpc_urls ! k) \<noteq> Returned (Some r))
               \<and> fst (parallel_call rpc_urls method_name call close_raises) = Inr r'))
       \<and> ((\<exists>err. fst (parallel_call rpc_urls method_name call close_raises) = Inl err) \<longleftrightarrow>
            (\<forall>i < length rpc_urls. call i (rpc_urls ! i) = Returned None
                \<or> (\<exists>e. call i (rpc_urls ! i) = Raised e)))
       \<and> (\<forall>err. fst (parallel_call rpc_urls method_name call close_raises) = Inl err \<longrightarrow>
            err = AllCallsFailed method_name)
       \<and> map url (snd (parallel_call rpc_urls method_name call close_raises)) = rpc_urls
       \<and> (\<forall>c \<in> set (snd (parallel_call rpc_urls method_name call close_raises)). closed c)"
proof -
  let ?out = "fst (parallel_call rpc_urls method_name call close_raises)"
  have out: "?out = first_success method_name (map (triple call) (enumerate 0 rpc_urls))"
    using closes by (rule fst_parallel_call)
  have clients: "snd (parallel_call rpc_urls method_name call close_raises)
      = map (\<lambda>u. \<lparr> url = u, closed = True \<rparr>) rpc_urls"
    using closes by (rule snd_parallel_call)
  have err: "(\<exists>err. ?out = Inl err) \<longleftrightarrow>
      (\<forall>i < length rpc_urls. call i (rpc_urls ! i) = Returned None
          \<or> (\<exists>e. call i (rpc_urls ! i) = Raised e))"
    unfolding out first_success_triples_error(1) by (simp add: not_success_iff)
  have a: "(\<exists>i r. i < length rpc_urls \<and> call i (rpc_urls ! i) = Returned (Some r)) \<longrightarrow>
            (\<exists>j r'. j < length rpc_urls \<and> call j (rpc_urls ! j) = Returned (Some r')
               \<and> (\<forall>k < j. \<forall>r. call k (rpc_urls ! k) \<noteq> Returned (Some r))
               \<and> ?out = Inr r')"
  proof
    assume "\<exists>i r. i < length rpc_urls \<and> call i (rpc_urls ! i) = Returned (Some r)"
    with err have "\<not> (\<exists>err. ?out = Inl err)" by auto
    then obtain r' where r': "?out = Inr r'" by (cases ?out) auto
    then have "first_success method_name (map (triple call) (enumerate 0 rpc_urls)) = Inr r'"
      by (simp add: out)
    then obtain j where "j < length rpc_urls" "call j (rpc_urls ! j) = Returned (Some r')"
      "\<forall>k < j. \<not> is_success (call k (rpc_urls ! k))"
      unfolding first_success_triples by auto
    with r' show "\<exists>j r'. j < length rpc_urls \<and> call j (rpc_urls ! j) = Returned (Some r')
        \<and> (\<forall>k < j. \<forall>r. call k (rpc_urls ! k) \<noteq> Returned (Some r)) \<and> ?out = Inr r'"
      by (auto simp: success_iff)
  qed
  have b: "\<forall>err. ?out = Inl err \<longrightarrow> err = AllCallsFailed method_name"
    unfolding out using first_success_triples_error(2) by blast
  have c: "map url (snd (parallel_call rpc_urls method_name call close_raises)) = rpc_urls"
    by (simp add: clients comp_def)
  have d: "\<forall>c \<in> set (snd (parallel_call rpc_urls method_name call close_raises)). closed c"
    by (auto simp: clients)
  show ?thesis by (intro conjI) (rule a err b c d)+
qed

theorem C6_race_first_non_none_result_witness:
  "fst (parallel_call [''https://a'', ''https://b'', ''https://c''] ''get_slot''
          two_healthy close_ok) = Inr 1
   \<and> snd (parallel_call [''https://a'', ''https://b'', ''https://c''] ''get_slot''
          two_healthy close_ok)
       = [\<lparr> url = ''https://a'', closed = True \<rparr>, \<lparr> url = ''https://b'', closed = True \<rparr>,
          \<lparr> url = ''https://c'', closed = True \<rparr>]"
  using C6_race_first_non_none_result [of "[''https://a'', ''https://b'', ''https://c'']"
      close_ok two_healthy "''get_slot''"]
  by (simp add: parallel_call_def get_all_clients_def call_rpc_def two_healthy_def
        close_ok_def)

text \<open>
  The claim as written lets the race fail only when every call errors.  A method that
  returns \<open>None\<close> without raising, such as \<open>close\<close>, errs on no endpoint and still ends
  in the all-calls-failed error.
\<close>

theorem C6_none_result_counterexample:
  "returns_none 0 ''https://api.mainnet-beta.solana.com'' = Returned None
   \<and> close_ok 0 ''https://api.mainnet-beta.solana.com'' = None
   \<and> fst (parallel_call [''https://api.mainnet-beta.solana.com''] ''close''
            returns_none close_ok)
       = Inl (AllCallsFailed ''close'')"
  by (simp add: parallel_call_def get_all_clients_def call_rpc_def returns_none_def
        close_ok_def)

text \<open>
  When a \<open>close\<close> does raise, the exception object takes the triple's place and the
  unpacking in the selection loop fails before the later successes are reached; the
  amended claim neither promises nor denies anything about such runs.
\<close>

lemma raising_close_aborts_race:
  "parallel_call [''https://a'', ''https://b'', ''https://c''] ''get_slot''
       two_healthy first_close_raises
     = (Inl UnpackTypeError,
        [\<lparr> url = ''https://a'', closed = False \<rparr>, \<lparr> url = ''https://b'', closed = True \<rparr>,
         \<lparr> url = ''https://c'', closed = True \<rparr>])"
  by (simp add: parallel_call_def get_all_clients_def call_rpc_def two_healthy_def
        first_close_raises_def)

section \<open>Properties of admission\<close>

lemma length_update_le: "length (AList.update k v al) \<le> Suc (length al)"
  by (induction al) simp_all

lemma admission_gate:
  "int (length (positions st)) \<ge> MAX_POSITIONS cfg \<or> today_trades st \<ge> MAX_DAILY_TRADES cfg
     \<Longrightarrow> analyze_and_trade_pool cfg st t = st"
  by (auto simp: analyze_and_trade_pool_def analyze_step_def)

lemma analyze_step_positions:
  "analyze_step cfg (st, t) = (st', t') \<Longrightarrow>
     (pc t \<noteq> AfterBuy \<longrightarrow> positions st' = positions st)
     \<and> length (positions st') \<le> Suc (length (positions st))"
  using length_update_le [of "ev_token_mint (pool_event t)" _ "positions st"]
  by (auto simp: analyze_step_def Let_def
        split: task_pc.splits option.splits if_splits)

text \<open>
  C7. The admission check refuses a task when the limits are reached, and tasks that run
  one after the other never take the number of open positions above \<open>MAX_POSITIONS\<close>
  (lemmas \<open>admission_gate\<close> and \<open>analyze_and_trade_pool_bound\<close>).  The check and
  the insertion are separated by three \<open>await\<close>s, though: with a maximum of one, two
  tasks for different pools that both pass the check before either inserts leave two
  open positions.
\<close>

theorem C7_interleaved_tasks_exceed_max:
  "MAX_POSITIONS example_config = 1
   \<and> map fst (positions (fst (run_schedule example_config
        (initial_state, [example_task ''poolA'' ''mintA'', example_task ''poolB'' ''mintB''])
        [0, 1, 0, 1, 0, 1, 0, 1]))) = [''mintA'', ''mintB'']"
  by (simp add: example_config_def initial_state_def example_task_def safe_verdict_def
        analyze_step_def Let_def)

lemma sequential_tasks_respect_max:
  "map fst (positions (analyze_and_trade_pool example_config
       (analyze_and_trade_pool example_config initial_state (example_task ''poolA'' ''mintA''))
       (example_task ''poolB'' ''mintB''))) = [''mintA'']"
  by (simp add: analyze_and_trade_pool_def example_config_def initial_state_def
        example_task_def safe_verdict_def analyze_step_def Let_def)


lemma analyze_step_pc:
  "analyze_step cfg (st, t) = (st', t') \<Longrightarrow> pc t' = AfterBuy \<Longrightarrow> pc t = AfterPrice"
  by (auto simp: analyze_step_def Let_def split: task_pc.splits option.splits if_splits)

lemma analyze_step_admission:
  "analyze_step cfg (st, t) = (st', t') \<Longrightarrow> pc t = AtAdmission \<Longrightarrow>
     st' = st \<and> (pc t' = TaskDone \<or>
        pc t' = AfterRugCheck \<and> int (length (positions st)) < MAX_POSITIONS cfg)"
  by (auto simp: analyze_step_def split: if_splits)

lemma analyze_step_done:
  "pc t = TaskDone \<Longrightarrow> analyze_step cfg (st, t) = (st, t)"
  by (simp add: analyze_step_def)

lemma analyze_and_trade_pool_bound:
  assumes "int (length (positions st)) \<le> MAX_POSITIONS cfg"
  shows "int (length (positions (analyze_and_trade_pool cfg st t))) \<le> MAX_POSITIONS cfg"
proof -
  obtain s1 t1 where 1: "analyze_step cfg (st, t\<lparr> pc := AtAdmission \<rparr>) = (s1, t1)"
    by (cases "analyze_step cfg (st, t\<lparr> pc := AtAdmission \<rparr>)")
  obtain s2 t2 where 2: "analyze_step cfg (s1, t1) = (s2, t2)"
    by (cases "analyze_step cfg (s1, t1)")
  obtain s3 t3 where 3: "analyze_step cfg (s2, t2) = (s3, t3)"
    by (cases "analyze_step cfg (s2, t2)")
  obtain s4 t4 where 4: "analyze_step cfg (s3, t3) = (s4, t4)"
    by (cases "analyze_step cfg (s3, t3)")
  have res: "analyze_and_trade_pool cfg st t = s4"
    by (simp add: analyze_and_trade_pool_def 1 2 3 4)
  from analyze_step_admission [OF 1] have s1: "s1 = st"
    and pc1: "pc t1 = TaskDone \<or>
       pc t1 = AfterRugCheck \<and> int (length (positions st)) < MAX_POSITIONS cfg"
    by simp_all
  from pc1 have p2: "positions s2 = positions s1"
    using analyze_step_positions [OF 2] by auto
  have "pc t2 \<noteq> AfterBuy"
    using analyze_step_pc [OF 2] pc1 by auto
  then have p3: "positions s3 = positions s2"
    using analyze_step_positions [OF 3] by auto
  show ?thesis
  proof (cases "pc t1 = TaskDone")
    case True
    with 2 have "t2 = t1" "s2 = s1" by (simp_all add: analyze_step_done)
    with True 3 have "t3 = t1" "s3 = s1" by (simp_all add: analyze_step_done)
    with True 4 have "s4 = s1" by (simp add: analyze_step_done)
    with res s1 assms show ?thesis by simp
  next
    case False
    with pc1 have lt: "int (length (positions st)) < MAX_POSITIONS cfg" by simp
    from analyze_step_positions [OF 4] have "length (positions s4) \<le> Suc (length (positions s3))"
      by simp
    with p3 p2 s1 lt res show ?thesis by simp
  qed
qed

end
